theory Spec2Isabelle
  imports Complex_Main "HOL-Library.Word" "HOL-Library.Signed_Division"
begin

unbundle bit_operations_syntax

section \<open>The runtime catalog of emitc_mhlo.h\<close>

text \<open>
  A \<^verbatim>\<open>std::vector<T>\<close> is a list. No function of the header throws or checks anything
  itself; what can go wrong is what the C++ language and library leave to the caller:
  \<^item> \<open>Undefined\<close>: the call has undefined behaviour (an index or iterator past the end
    of a vector, an integer division by zero, a signed overflow, a distribution whose
    bounds are the wrong way round); the standard places no requirement on what
    happens, so it is neither a result nor a reported failure;
  \<^item> \<open>LengthError\<close>: \<^verbatim>\<open>std::vector<T> result(n)\<close> throws when \<open>n\<close>, converted to
    \<^verbatim>\<open>size_t\<close>, exceeds \<^verbatim>\<open>max_size()\<close>.
\<close>

datatype failure = Undefined | LengthError

text \<open>A scalar operation that cannot go wrong.\<close>

definition returns :: "('a \<Rightarrow> 'b \<Rightarrow> 'c) \<Rightarrow> 'a \<Rightarrow> 'b \<Rightarrow> failure + 'c" where
  "returns f a b = Inr (f a b)"

subsection \<open>std::transform, binary form\<close>

text \<open>
  \<^verbatim>\<open>std::transform(x.begin(), x.end(), y.begin(), z.begin(), op)\<close> walks the first range
  and, at each position \<open>i\<close>, stores \<open>op(x[i], y[i])\<close> in \<open>z[i]\<close>. Only the first range
  has an end: nothing compares \<open>i\<close> with the sizes of \<open>y\<close> and \<open>z\<close>, and a position past
  either is undefined behaviour.
\<close>

function transform_loop ::
  "('a \<Rightarrow> 'b \<Rightarrow> failure + 'c) \<Rightarrow> 'a list \<Rightarrow> 'b list \<Rightarrow> 'c list \<Rightarrow> nat \<Rightarrow> failure + 'c list"
where
  "transform_loop op x y z i =
     (if i < length x then
        (if i < length y \<and> i < length z then
           (case op (x ! i) (y ! i) of
              Inl e \<Rightarrow> Inl e
            | Inr v \<Rightarrow> transform_loop op x y (z[i := v]) (Suc i))
         else Inl Undefined)
      else Inr z)"
  by pat_completeness auto
termination
  by (relation "measure (\<lambda>(op, x, y, z, i). length x - i)") auto

declare transform_loop.simps [simp del]

definition transform ::
  "('a \<Rightarrow> 'b \<Rightarrow> failure + 'c) \<Rightarrow> 'a list \<Rightarrow> 'b list \<Rightarrow> 'c list \<Rightarrow> failure + 'c list"
where
  "transform op x y z = transform_loop op x y z 0"

subsection \<open>Binary elementwise operations\<close>

text \<open>
  \<open>add\<close>, \<open>sub\<close> and \<open>mul\<close> copy \<open>x\<close> into \<open>z\<close> and transform with \<^verbatim>\<open>std::plus<>\<close>,
  \<^verbatim>\<open>std::minus<>\<close>, \<^verbatim>\<open>std::multiplies<>\<close>: the operator of the element type, here the
  operator of the HOL type that stands for \<open>T\<close>.
\<close>

definition add :: "'a::plus list \<Rightarrow> 'a list \<Rightarrow> failure + 'a list" where
  "add x y = (let z = x in transform (returns (+)) x y z)"



subsection \<open>Comparison\<close>

text \<open>
  \<open>compare\<close> takes the predicate as the template \<^verbatim>\<open>Compare<T>\<close>; \<open>z\<close> starts as
  \<open>x.size()\<close> copies of \<open>false\<close>.
\<close>

definition compare :: "('a \<Rightarrow> 'a \<Rightarrow> bool) \<Rightarrow> 'a list \<Rightarrow> 'a list \<Rightarrow> failure + bool list" where
  "compare Compare x y =
     (let z = replicate (length x) False in transform (returns Compare) x y z)"

text \<open>
  \<^verbatim>\<open>std::equal_to<T>\<close> is \<open>==\<close> of \<open>T\<close>. On an integral type it is equality of values.
\<close>

definition equal_to :: "'a \<Rightarrow> 'a \<Rightarrow> bool" where
  "equal_to a b = (a = b)"

text \<open>
  On \<^verbatim>\<open>float\<close> it is the IEEE 754 comparison, which is decided by the bit pattern
  alone (binary32: sign, eight exponent bits, 23 fraction bits): a NaN (exponent all
  ones, fraction not zero) equals nothing, not even itself; the two zeros are equal;
  otherwise the patterns must agree.
\<close>

definition float_is_nan :: "32 word \<Rightarrow> bool" where
  "float_is_nan a = (a AND 0x7F800000 = 0x7F800000 \<and> a AND 0x007FFFFF \<noteq> 0)"

definition float_is_zero :: "32 word \<Rightarrow> bool" where
  "float_is_zero a = (a AND 0x7FFFFFFF = 0)"

definition float_equal_to :: "32 word \<Rightarrow> 32 word \<Rightarrow> bool" where
  "float_equal_to a b =
     (\<not> float_is_nan a \<and> \<not> float_is_nan b \<and> (a = b \<or> (float_is_zero a \<and> float_is_zero b)))"

subsection \<open>Structural operations\<close>

function broadcast_loop :: "'a list \<Rightarrow> nat \<Rightarrow> 'a list \<Rightarrow> nat \<Rightarrow> 'a list" where
  "broadcast_loop x n z i = (if i < n then broadcast_loop x n (z @ x) (Suc i) else z)"
  by pat_completeness auto
termination
  by (relation "measure (\<lambda>(x, n, z, i). n - i)") auto

declare broadcast_loop.simps [simp del]

definition broadcast_in_dim :: "'a list \<Rightarrow> nat \<Rightarrow> 'a list" where
  "broadcast_in_dim x n = (let z = [] in broadcast_loop x n z 0)"

definition concatenate :: "'a list \<Rightarrow> 'a list \<Rightarrow> 'a list" where
  "concatenate x y = (let z = x in z @ y)"






subsection \<open>Unary elementwise operations: abs\<close>

text \<open>
  Both vector overloads of \<open>abs\<close> run the same loop, bounded by the size of \<open>z\<close>:
  \<open>z[i] = std::abs(x[i])\<close>. The scalar \<^verbatim>\<open>std::abs\<close> is a parameter.
\<close>

function abs_loop :: "('c \<Rightarrow> 'r) \<Rightarrow> 'c list \<Rightarrow> 'r list \<Rightarrow> nat \<Rightarrow> failure + 'r list" where
  "abs_loop std_abs x z i =
     (if i < length z then
        (if i < length x then abs_loop std_abs x (z[i := std_abs (x ! i)]) (Suc i)
         else Inl Undefined)
      else Inr z)"
  by pat_completeness auto
termination
  by (relation "measure (\<lambda>(std_abs, x, z, i). length z - i)") auto

declare abs_loop.simps [simp del]

text \<open>The overload on \<^verbatim>\<open>std::vector<T>\<close> starts from \<open>z(x)\<close>, a copy of \<open>x\<close>.\<close>

definition abs_vector :: "('a \<Rightarrow> 'a) \<Rightarrow> 'a list \<Rightarrow> failure + 'a list" where
  "abs_vector std_abs x = (let z = x in abs_loop std_abs x z 0)"

text \<open>
  The overload on \<^verbatim>\<open>std::vector<std::complex<T>>\<close> starts from an empty \<open>z\<close> and calls
  \<open>z.reserve(x.size())\<close>, which sets the capacity of \<open>z\<close> and leaves its size alone.
\<close>

definition reserve :: "'a list \<Rightarrow> nat \<Rightarrow> 'a list" where
  "reserve z n = z"

definition abs_complex :: "('c \<Rightarrow> 'r) \<Rightarrow> 'c list \<Rightarrow> failure + 'r list" where
  "abs_complex std_abs x = (let z = reserve [] (length x) in abs_loop std_abs x z 0)"

subsection \<open>Integral element types\<close>

text \<open>
  An integral \<open>T\<close> of \<open>w\<close> bits is \<open>'a word\<close> with \<open>LENGTH('a) = w\<close>, together with a flag
  \<open>is_signed\<close> that says whether \<open>T\<close> is signed (its values are then read by \<open>sint\<close>).
\<close>

definition le_T :: "bool \<Rightarrow> 'a::len word \<Rightarrow> 'a word \<Rightarrow> bool" where
  "le_T is_signed a b = (if is_signed then a \<le>s b else a \<le> b)"

definition less_T :: "bool \<Rightarrow> 'a::len word \<Rightarrow> 'a word \<Rightarrow> bool" where
  "less_T is_signed a b = (if is_signed then a <s b else a < b)"

definition numeric_limits_min :: "bool \<Rightarrow> 'a::len word" where
  "numeric_limits_min is_signed = (if is_signed then - (2 ^ (LENGTH('a) - 1)) else 0)"

definition numeric_limits_max :: "bool \<Rightarrow> 'a::len word" where
  "numeric_limits_max is_signed = (if is_signed then 2 ^ (LENGTH('a) - 1) - 1 else - 1)"

subsection \<open>Division\<close>





subsection \<open>Random operations\<close>

text \<open>
  \<^verbatim>\<open>std::accumulate(shape.begin(), shape.end(), 1, std::multiplies<int64_t>())\<close>: the
  accumulator has the type of the initial value \<open>1\<close>, which is \<^verbatim>\<open>int\<close>. Each step widens
  it to 64 bits, multiplies, and narrows the product back to 32 bits, keeping the low
  32 bits (the conversion every compiler performs, and the one C++20 prescribes).
\<close>

fun accumulate_multiplies :: "64 word list \<Rightarrow> 32 word \<Rightarrow> 32 word" where
  "accumulate_multiplies [] init = init"
| "accumulate_multiplies (d # shape) init =
     accumulate_multiplies shape (ucast ((scast init :: 64 word) * d))"

text \<open>
  The loop \<open>result[i] = distribution(gen)\<close>, for \<open>i\<close> below \<open>n\<close>. A draw takes the engine
  and returns the sample and the engine advanced.
\<close>

function rng_loop ::
  "('g \<Rightarrow> 'a \<times> 'g) \<Rightarrow> nat \<Rightarrow> 'a list \<Rightarrow> nat \<Rightarrow> 'g \<Rightarrow> failure + 'a list"
where
  "rng_loop distribution n result i gen =
     (if i < n then
        (if i < length result then
           (case distribution gen of
              (v, gen') \<Rightarrow> rng_loop distribution n (result[i := v]) (Suc i) gen')
         else Inl Undefined)
      else Inr result)"
  by pat_completeness auto
termination
  by (relation "measure (\<lambda>(distribution, n, result, i, gen). n - i)") auto

declare rng_loop.simps [simp del]

text \<open>
  \<open>rng_uniform\<close> for an integral \<open>T\<close>. Two things come from outside the header and are
  parameters: \<open>gen\<close>, the \<^verbatim>\<open>std::mt19937\<close> engine as seeded from \<^verbatim>\<open>std::random_device\<close>,
  and \<open>uniform_int_distribution a b\<close>, one draw of
  \<^verbatim>\<open>std::uniform_int_distribution<T>(a, b)\<close>, which the library defines for \<open>a \<le> b\<close> only.
  The bound \<open>high - 1\<close> is computed in \<open>T\<close>; it overflows for the least value of a signed
  type as wide as \<^verbatim>\<open>int\<close>. \<^verbatim>\<open>std::vector<T> result(n)\<close> holds \<open>n\<close> zeros, and throws for a
  negative \<open>n\<close>, which \<^verbatim>\<open>size_t\<close> turns into a size beyond \<^verbatim>\<open>max_size()\<close>.
\<close>

definition rng_uniform ::
  "bool \<Rightarrow> ('a::len word \<Rightarrow> 'a word \<Rightarrow> 'g \<Rightarrow> 'a word \<times> 'g) \<Rightarrow> 'g \<Rightarrow>
   'a word \<Rightarrow> 'a word \<Rightarrow> 64 word list \<Rightarrow> failure + 'a word list"
where
  "rng_uniform is_signed uniform_int_distribution gen low high shape =
     (let n = (scast (accumulate_multiplies shape 1) :: 64 word) in
      if is_signed \<and> 32 \<le> LENGTH('a) \<and> high = numeric_limits_min True then Inl Undefined
      else if \<not> le_T is_signed low (high - 1) then Inl Undefined
      else if sint n < 0 then Inl LengthError
      else rng_loop (uniform_int_distribution low (high - 1)) (nat (sint n))
             (replicate (nat (sint n)) 0) 0 gen)"

text \<open>
  \<open>rng_bit_generator<T, Algorithm, N>(state)\<close>: the template arguments \<open>Algorithm\<close>
  (\<^verbatim>\<open>int32_t\<close>) and \<open>N\<close> (\<^verbatim>\<open>int64_t\<close>) are arguments here.
\<close>

definition rng_bit_generator ::
  "bool \<Rightarrow> ('a::len word \<Rightarrow> 'a word \<Rightarrow> 'g \<Rightarrow> 'a word \<times> 'g) \<Rightarrow> 'g \<Rightarrow>
   32 word \<Rightarrow> 64 word \<Rightarrow> 64 word list \<Rightarrow> failure + (64 word list \<times> 'a word list)"
where
  "rng_bit_generator is_signed uniform_int_distribution gen Algorithm N state =
     (let newState = state;
          shape = [N];
          min_T = numeric_limits_min is_signed;
          max_T = numeric_limits_max is_signed
      in case rng_uniform is_signed uniform_int_distribution gen min_T max_T shape of
           Inl e \<Rightarrow> Inl e
         | Inr resultVector \<Rightarrow> Inr (newState, resultVector))"

text \<open>
  A distribution honours its contract when every draw from \<open>[a, b]\<close> with \<open>a \<le> b\<close> lies
  in \<open>[a, b]\<close>.
\<close>

definition in_closed_range ::
  "bool \<Rightarrow> ('a::len word \<Rightarrow> 'a word \<Rightarrow> 'g \<Rightarrow> 'a word \<times> 'g) \<Rightarrow> bool" where
  "in_closed_range is_signed uniform_int_distribution =
     (\<forall>a b g. le_T is_signed a b \<longrightarrow>
        le_T is_signed a (fst (uniform_int_distribution a b g)) \<and>
        le_T is_signed (fst (uniform_int_distribution a b g)) b)"

text \<open>
  The simplest such distribution, for concrete runs: the engine is a counter, and a
  draw returns the lower bound and counts.
\<close>

definition lowest_draw :: "'a::len word \<Rightarrow> 'a word \<Rightarrow> nat \<Rightarrow> 'a word \<times> nat" where
  "lowest_draw a b g = (a, Suc g)"

section \<open>Properties\<close>

subsection \<open>What the loops compute\<close>

lemma transform_loop_defined:
  fixes f :: "'a \<Rightarrow> 'b \<Rightarrow> 'c"
  shows "i \<le> length x \<Longrightarrow> length x \<le> length y \<Longrightarrow> length z = length x \<Longrightarrow>
   (\<And>j. i \<le> j \<Longrightarrow> j < length x \<Longrightarrow> op (x ! j) (y ! j) = Inr (f (x ! j) (y ! j))) \<Longrightarrow>
   transform_loop op x y z i = Inr (take i z @ map2 f (drop i x) (drop i y))"
proof (induction op x y z i rule: transform_loop.induct)
  case (1 op x y z i)
  show ?case
  proof (cases "i < length x")
    case False
    with 1(2,4) show ?thesis by (subst transform_loop.simps) simp
  next
    case True
    with 1(3,4) have iy: "i < length y" and iz: "i < length z" by simp_all
    let ?v = "f (x ! i) (y ! i)"
    have opi: "op (x ! i) (y ! i) = Inr ?v" using 1(5)[of i] True by simp
    have step: "transform_loop op x y z i = transform_loop op x y (z[i := ?v]) (Suc i)"
      using True iy iz opi by (subst transform_loop.simps) simp
    have ih: "transform_loop op x y (z[i := ?v]) (Suc i) =
        Inr (take (Suc i) (z[i := ?v]) @ map2 f (drop (Suc i) x) (drop (Suc i) y))"
      using 1(1)[of ?v] True iy iz opi 1(3,4,5) by simp
    have tk: "take (Suc i) (z[i := ?v]) = take i z @ [?v]"
      using iz by (simp add: take_Suc_conv_app_nth)
    have dx: "drop i x = x ! i # drop (Suc i) x" using True by (simp add: Cons_nth_drop_Suc)
    have dy: "drop i y = y ! i # drop (Suc i) y" using iy by (simp add: Cons_nth_drop_Suc)
    show ?thesis by (simp add: step ih tk dx dy)
  qed
qed

lemma transform_defined:
  "length x \<le> length y \<Longrightarrow> length z = length x \<Longrightarrow>
   (\<And>j. j < length x \<Longrightarrow> op (x ! j) (y ! j) = Inr (f (x ! j) (y ! j))) \<Longrightarrow>
   transform op x y z = Inr (map2 f x y)"
  using transform_loop_defined[of 0 x y z op f] by (simp add: transform_def)

lemma transform_returns:
  "length x \<le> length y \<Longrightarrow> length z = length x \<Longrightarrow>
   transform (returns f) x y z = Inr (map2 f x y)"
  by (rule transform_defined) (simp_all add: returns_def)









lemma broadcast_loop_concat:
  "i \<le> n \<Longrightarrow> broadcast_loop x n z i = z @ concat (replicate (n - i) x)"
proof (induction x n z i rule: broadcast_loop.induct)
  case (1 x n z i)
  show ?case
  proof (cases "i < n")
    case False
    with 1(2) show ?thesis by (subst broadcast_loop.simps) simp
  next
    case True
    then have "n - i = Suc (n - Suc i)" by simp
    with 1(1) True show ?thesis by (subst broadcast_loop.simps) simp
  qed
qed

subsection \<open>Elementwise arithmetic\<close>



subsection \<open>Structural operations\<close>

text \<open>
  C7. For every sequence \<open>x\<close> and count \<open>n\<close>, zero included, \<open>broadcast_in_dim x n\<close> is
  the concatenation of \<open>n\<close> copies of \<open>x\<close>, of length \<open>n\<close> times the length of \<open>x\<close>; in
  particular \<open>broadcast_in_dim [1,2] 3 = [1,2,1,2,1,2]\<close>.
\<close>

theorem broadcast_in_dim_copies:
  "broadcast_in_dim x n = concat (replicate n x) \<and>
   length (broadcast_in_dim x n) = n * length x \<and>
   broadcast_in_dim x 0 = [] \<and>
   broadcast_in_dim [1, 2 :: int] 3 = [1, 2, 1, 2, 1, 2]"
proof -
  have eq: "broadcast_in_dim x n = concat (replicate n x)" for x :: "'b list" and n
    by (simp add: broadcast_in_dim_def broadcast_loop_concat)
  have len: "length (concat (replicate n x)) = n * length x"
    by (induction n) simp_all
  have ex: "concat (replicate 3 [1, 2 :: int]) = [1, 2, 1, 2, 1, 2]"
    by (simp add: numeral_3_eq_3)
  show ?thesis by (simp add: eq len ex)
qed

text \<open>
  C8. \<open>concatenate x y\<close> is the elements of \<open>x\<close> followed by those of \<open>y\<close>; it is not
  commutative (\<open>[3,4]\<close> with \<open>[1,2]\<close> differs from \<open>[1,2]\<close> with \<open>[3,4]\<close>); chained
  pairwise in the same order it is associative.
\<close>

theorem concatenate_order:
  "concatenate x y = x @ y \<and>
   concatenate [1, 2 :: int] [3, 4] = [1, 2, 3, 4] \<and>
   concatenate [3, 4] [1, 2 :: int] \<noteq> concatenate [1, 2] [3, 4] \<and>
   concatenate (concatenate x y) z = concatenate x (concatenate y z)"
  by (simp add: concatenate_def)

subsection \<open>Operands of unequal length\<close>

lemma map2_self:
  "(\<forall>a\<in>set x. P a a) \<Longrightarrow> map2 P x x = replicate (length x) True"
  by (induction x) simp_all




subsection \<open>Comparison\<close>

text \<open>
  C9 (as amended). For equal-length inputs \<open>compare\<close> returns a mask of the same length
  whose element at each index is the predicate on the two elements there. For a
  sequence \<open>x\<close> of an integral element type, comparing \<open>x\<close> with itself for equality
  gives the all-true mask of its length; for a sequence of floats the same holds when
  no element is a NaN.
\<close>

theorem compare_mask:
  "(length x = length y \<longrightarrow>
      (\<exists>z. compare P x y = Inr z \<and> length z = length x \<and>
           (\<forall>i<length x. z ! i = P (x ! i) (y ! i)))) \<and>
   compare equal_to x x = Inr (replicate (length x) True) \<and>
   ((\<forall>a\<in>set w. \<not> float_is_nan a) \<longrightarrow>
      compare float_equal_to w w = Inr (replicate (length w) True))"
proof -
  have "compare equal_to x x = Inr (replicate (length x) True)"
    by (simp add: compare_def transform_returns map2_self equal_to_def)
  moreover have "compare float_equal_to w w = Inr (replicate (length w) True)"
    if "\<forall>a\<in>set w. \<not> float_is_nan a"
    using that by (simp add: compare_def transform_returns map2_self float_equal_to_def)
  ultimately show ?thesis
    by (simp add: compare_def transform_returns)
qed

theorem compare_mask_witness:
  "length [1, 2, 3 :: int] = length [3, 2, 1 :: int] \<and>
   compare (<) [1, 2, 3] [3, 2, 1 :: int] = Inr [True, False, False] \<and>
   compare equal_to [1, 2, 3 :: int] [1, 2, 3] = Inr [True, True, True] \<and>
   \<not> float_is_nan 0x3F800000 \<and> \<not> float_is_nan 0x80000000 \<and>
   compare float_equal_to [0x3F800000, 0x80000000] [0x3F800000, 0x80000000] = Inr [True, True]"
proof -
  have nn: "\<forall>a\<in>set [0x3F800000, 0x80000000]. \<not> float_is_nan a"
    by (simp add: float_is_nan_def)
  from compare_mask [of "[1, 2, 3 :: int]" "[3, 2, 1]" "(<)" "[0x3F800000, 0x80000000]"] nn
  obtain z where z: "compare (<) [1, 2, 3] [3, 2, 1 :: int] = Inr z" "length z = 3"
      "\<forall>i<3. z ! i = ([1, 2, 3 :: int] ! i < [3, 2, 1] ! i)"
    and e: "compare equal_to [1, 2, 3 :: int] [1, 2, 3] = Inr [True, True, True]"
    and f: "compare float_equal_to [0x3F800000, 0x80000000] [0x3F800000, 0x80000000]
              = Inr [True, True]"
    by (auto simp: numeral_3_eq_3 numeral_2_eq_2)
  have "z = [True, False, False]"
    using z(2,3) by (simp add: list_eq_iff_nth_eq numeral_3_eq_3 All_less_Suc)
  with z(1) e f nn show ?thesis by simp
qed

theorem compare_nan_counterexample:
  "float_is_nan 0x7FC00000 \<and>
   compare float_equal_to [0x7FC00000] [0x7FC00000] = Inr [False]"
  by (simp add: compare_def transform_returns float_equal_to_def float_is_nan_def)

subsection \<open>Magnitude\<close>

lemma abs_loop_copy:
  "i \<le> length x \<Longrightarrow> length z = length x \<Longrightarrow>
   abs_loop f x z i = Inr (take i z @ map f (drop i x))"
proof (induction f x z i rule: abs_loop.induct)
  case (1 f x z i)
  show ?case
  proof (cases "i < length z")
    case False
    with 1(2,3) show ?thesis by (subst abs_loop.simps) simp
  next
    case True
    with 1(3) have ix: "i < length x" by simp
    have "abs_loop f x z i = abs_loop f x (z[i := f (x ! i)]) (Suc i)"
      using True ix by (subst abs_loop.simps) simp
    also have "\<dots> = Inr (take (Suc i) (z[i := f (x ! i)]) @ map f (drop (Suc i) x))"
      using 1(1) True ix 1(3) by simp
    also have "take (Suc i) (z[i := f (x ! i)]) = take i z @ [f (x ! i)]"
      using True by (simp add: take_Suc_conv_app_nth)
    finally show ?thesis using ix by (simp add: Cons_nth_drop_Suc[symmetric])
  qed
qed

lemma abs_vector_map: "abs_vector f x = Inr (map f x)"
  by (simp add: abs_vector_def abs_loop_copy)

lemma abs_complex_empty: "abs_complex f x = Inr []"
  by (simp add: abs_complex_def reserve_def abs_loop.simps)

text \<open>
  C1. The claim asks, for a non-empty complex sequence \<open>x\<close>, for a real sequence of the
  same length holding the magnitudes. The complex overload returns the empty sequence
  instead: after \<open>reserve\<close> the size of \<open>z\<close> is still zero, so the loop, bounded by that
  size, never runs. At \<open>[3 + 4i]\<close> the magnitudes are \<open>[5]\<close> and the result is \<open>[]\<close>; the
  overload on real sequences, which copies \<open>x\<close> into \<open>z\<close>, does return every magnitude.
\<close>

theorem abs_complex_drops_elements:
  "map cmod [Complex 3 4] = [5] \<and>
   abs_complex cmod [Complex 3 4] = Inr [] \<and>
   abs_vector abs [- 5 :: int] = Inr [5]"
proof -
  have "sqrt 25 = sqrt (5\<^sup>2)" by simp
  also have "\<dots> = 5" by (simp only: real_sqrt_abs)
  finally have "cmod (Complex 3 4) = 5" by (simp add: cmod_def)
  then show ?thesis by (simp add: abs_complex_empty abs_vector_map)
qed


subsection \<open>Division\<close>





subsection \<open>Bounds in an integral type\<close>

lemma less_T_pred_unsigned: "(low :: 'a::len word) < high \<Longrightarrow> low \<le> high - 1"
  by (metis less_imp_less_eq_dec)

lemma pred_less_T_unsigned: "(low :: 'a::len word) < high \<Longrightarrow> v \<le> high - 1 \<Longrightarrow> v < high"
  by (metis interval_class.less_eq_dec_imp_less)

lemma sint_of_int_self:
  "- (2 ^ (LENGTH('a) - 1)) \<le> k \<Longrightarrow> k < 2 ^ (LENGTH('a) - 1) \<Longrightarrow>
   sint (word_of_int k :: 'a::len word) = k"
  by (simp add: sint_sbintrunc' signed_take_bit_int_eq_self)

lemma sint_pred: 
  fixes low high :: "'a::len word"
  assumes "low <s high"
  shows "sint (high - 1) = sint high - 1"
proof -
  have lo: "- (2 ^ (LENGTH('a) - 1)) \<le> sint low" by (rule sint_ge)
  have hi: "sint high < 2 ^ (LENGTH('a) - 1)" by (rule sint_lt)
  have lt: "sint low < sint high" using assms by (simp add: word_sless_alt)
  have "high - 1 = word_of_int (sint high - 1)" by simp
  then have "sint (high - 1) = sint (word_of_int (sint high - 1) :: 'a word)" by simp
  also have "\<dots> = sint high - 1"
    using lo hi lt by (intro sint_of_int_self) linarith+
  finally show ?thesis .
qed

lemma sint_least: "sint (- (2 ^ (LENGTH('a) - 1)) :: 'a::len word) = - (2 ^ (LENGTH('a) - 1))"
proof -
  have "(- (2 ^ (LENGTH('a) - 1)) :: 'a word) = word_of_int (- (2 ^ (LENGTH('a) - 1)))" by simp
  then have "sint (- (2 ^ (LENGTH('a) - 1)) :: 'a word)
      = sint (word_of_int (- (2 ^ (LENGTH('a) - 1))) :: 'a word)" by simp
  also have "\<dots> = - (2 ^ (LENGTH('a) - 1))"
    by (intro sint_of_int_self) simp_all
  finally show ?thesis .
qed

lemma sint_greatest: "sint (2 ^ (LENGTH('a) - 1) - 1 :: 'a::len word) = 2 ^ (LENGTH('a) - 1) - 1"
proof -
  have "(2 ^ (LENGTH('a) - 1) - 1 :: 'a word) = word_of_int (2 ^ (LENGTH('a) - 1) - 1)" by simp
  then have "sint (2 ^ (LENGTH('a) - 1) - 1 :: 'a word)
      = sint (word_of_int (2 ^ (LENGTH('a) - 1) - 1) :: 'a word)" by simp
  also have "\<dots> = 2 ^ (LENGTH('a) - 1) - 1"
  proof (intro sint_of_int_self)
    have "(0::int) < 2 ^ (LENGTH('a) - 1)" by simp
    then show "- (2 ^ (LENGTH('a) - 1)) \<le> (2 ^ (LENGTH('a) - 1) - 1 :: int)" by linarith
  qed simp
  finally show ?thesis .
qed

lemma less_T_pred:
  "less_T sg low high \<Longrightarrow> le_T sg low (high - 1)"
  by (cases sg)
    (simp_all add: less_T_def le_T_def less_T_pred_unsigned word_sle_eq word_sless_alt sint_pred)

lemma pred_less_T:
  "less_T sg low high \<Longrightarrow> le_T sg v (high - 1) \<Longrightarrow> less_T sg v high"
  by (cases sg)
    (auto simp add: less_T_def le_T_def word_sle_eq word_sless_alt sint_pred
      intro: pred_less_T_unsigned)

lemma less_T_not_least:
  fixes low high :: "'a::len word"
  shows "less_T True low high \<Longrightarrow> high \<noteq> numeric_limits_min True"
proof
  assume lt: "less_T True low high" and eq: "high = numeric_limits_min True"
  have "- (2 ^ (LENGTH('a) - 1)) \<le> sint low" by (rule sint_ge)
  moreover have "sint high = - (2 ^ (LENGTH('a) - 1))"
    unfolding eq numeric_limits_min_def by (simp only: if_True sint_least)
  ultimately show False using lt by (simp add: less_T_def word_sless_alt)
qed

lemma limits_less_T:
  "less_T sg (numeric_limits_min sg :: 'a::len word) (numeric_limits_max sg)"
proof (cases sg)
  case True
  have "(0::int) < 2 ^ (LENGTH('a) - 1)" by simp
  then have "- (2 ^ (LENGTH('a) - 1)) < (2 ^ (LENGTH('a) - 1) - 1 :: int)" by linarith
  with True show ?thesis
    unfolding less_T_def numeric_limits_min_def numeric_limits_max_def word_sless_alt
    by (simp only: if_True sint_least sint_greatest)
next
  case False
  then show ?thesis
    by (simp add: less_T_def numeric_limits_min_def numeric_limits_max_def word_gt_0)
qed


subsection \<open>The sample count\<close>

lemma ucast_mult_down: "(ucast (a * b :: 64 word) :: 32 word) = ucast a * ucast b"
proof -
  have "(ucast (a * b) :: 32 word) = word_of_int (uint (a * b))" by simp
  also have "\<dots> = word_of_int (take_bit 64 (uint a * uint b))"
    by (simp add: uint_word_ariths take_bit_eq_mod)
  also have "\<dots> = word_of_int (uint a * uint b)"
    unfolding word_of_int_eq_iff take_bit_take_bit by simp
  also have "\<dots> = ucast a * ucast b" by simp
  finally show ?thesis .
qed

lemma ucast_scast_id: "(ucast (scast (a :: 32 word) :: 64 word) :: 32 word) = a"
  by (rule bit_word_eqI) (auto simp add: bit_simps)

lemma ucast_of_sint: "(word_of_int (sint (d :: 64 word)) :: 32 word) = ucast d"
  by (rule bit_word_eqI) (auto simp add: bit_simps)

lemma accumulate_multiplies_eq:
  "accumulate_multiplies shape init = init * word_of_int (prod_list (map sint shape))"
proof (induction shape arbitrary: init)
  case Nil
  show ?case by simp
next
  case (Cons d shape)
  have "accumulate_multiplies (d # shape) init
      = ucast ((scast init :: 64 word) * d) * word_of_int (prod_list (map sint shape))"
    by (simp add: Cons)
  also have "(ucast ((scast init :: 64 word) * d) :: 32 word) = init * word_of_int (sint d)"
    by (simp only: ucast_mult_down ucast_scast_id ucast_of_sint)
  finally show ?case by (simp add: mult.assoc)
qed

lemma sint_ucast_count:
  fixes N :: "64 word"
  assumes "0 \<le> sint N" "sint N < 2 ^ 31"
  shows "sint (ucast N :: 32 word) = sint N"
proof -
  have "sint N < 2 ^ 64" using assms(2) by simp
  then have u: "uint N = sint N"
    using uint_sint[of N] assms(1) by (simp add: take_bit_int_eq_self)
  have b: "sint (ucast N :: 32 word) = signed_take_bit (LENGTH(32) - Suc 0) (uint N)"
    by (rule signed_ucast_eq)
  show ?thesis
    unfolding b u using assms by (simp add: signed_take_bit_int_eq_self)
qed

lemma accumulate_single: "accumulate_multiplies [N] 1 = ucast N"
  by simp

subsection \<open>Random operations\<close>

lemma rng_loop_result:
  "i \<le> n \<Longrightarrow> length result = n \<Longrightarrow>
   \<exists>r. rng_loop d n result i g = Inr r \<and> length r = n \<and>
       (\<forall>j<i. r ! j = result ! j) \<and>
       (\<forall>j. i \<le> j \<and> j < n \<longrightarrow> (\<exists>g'. r ! j = fst (d g')))"
proof (induction d n result i g rule: rng_loop.induct)
  case (1 d n result i g)
  show ?case
  proof (cases "i < n")
    case False
    with 1(2,3) show ?thesis by (subst rng_loop.simps) auto
  next
    case True
    with 1(3) have il: "i < length result" by simp
    obtain v g' where dg: "d g = (v, g')" by (cases "d g")
    have step: "rng_loop d n result i g = rng_loop d n (result[i := v]) (Suc i) g'"
      using True il dg by (subst rng_loop.simps) simp
    from 1(1)[OF True il dg[symmetric]] True 1(3)
    obtain r where r: "rng_loop d n (result[i := v]) (Suc i) g' = Inr r" "length r = n"
        "\<forall>j<Suc i. r ! j = result[i := v] ! j"
        "\<forall>j. Suc i \<le> j \<and> j < n \<longrightarrow> (\<exists>g'. r ! j = fst (d g'))"
      by auto
    have before: "\<forall>j<i. r ! j = result ! j" using r(3) by simp
    have "r ! i = v" using r(3) il by simp
    then have here: "\<exists>g'. r ! i = fst (d g')" using dg by (metis fst_conv)
    have after: "\<forall>j. i \<le> j \<and> j < n \<longrightarrow> (\<exists>g'. r ! j = fst (d g'))"
    proof (intro allI impI)
      fix j assume j: "i \<le> j \<and> j < n"
      show "\<exists>g'. r ! j = fst (d g')"
      proof (cases "j = i")
        case True with here show ?thesis by simp
      next
        case False with j r(4) show ?thesis by simp
      qed
    qed
    show ?thesis using step r(1,2) before after by simp
  qed
qed

lemma rng_uniform_returns:
  fixes low high :: "'a::len word"
  assumes lt: "less_T sg low high"
    and n: "0 \<le> sint (accumulate_multiplies shape 1)"
  shows "\<exists>r. rng_uniform sg distr gen low high shape = Inr r \<and>
     int (length r) = sint (accumulate_multiplies shape 1) \<and>
     (\<forall>j<length r. \<exists>g'. r ! j = fst (distr low (high - 1) g'))"
proof -
  let ?n = "scast (accumulate_multiplies shape 1) :: 64 word"
  have sn: "sint ?n = sint (accumulate_multiplies shape 1)"
    by (simp add: sint_up_scast is_up)
  have nu: "\<not> (sg \<and> 32 \<le> LENGTH('a) \<and> high = numeric_limits_min True)"
    using lt less_T_not_least[of low high] by auto
  have le: "le_T sg low (high - 1)" using lt by (rule less_T_pred)
  have eq: "rng_uniform sg distr gen low high shape =
      rng_loop (distr low (high - 1)) (nat (sint ?n)) (replicate (nat (sint ?n)) 0) 0 gen"
    using nu le n sn by (auto simp add: rng_uniform_def Let_def)
  from rng_loop_result[of 0 "nat (sint ?n)" "replicate (nat (sint ?n)) 0" "distr low (high - 1)" gen]
  obtain r where "rng_loop (distr low (high - 1)) (nat (sint ?n)) (replicate (nat (sint ?n)) 0) 0 gen = Inr r"
      "length r = nat (sint ?n)" "\<forall>j. j < nat (sint ?n) \<longrightarrow> (\<exists>g'. r ! j = fst (distr low (high - 1) g'))"
    by auto
  with eq sn n show ?thesis by auto
qed

lemma rng_uniform_throws:
  fixes low high :: "'a::len word"
  assumes lt: "less_T sg low high"
    and n: "sint (accumulate_multiplies shape 1) < 0"
  shows "rng_uniform sg distr gen low high shape = Inl LengthError"
proof -
  let ?n = "scast (accumulate_multiplies shape 1) :: 64 word"
  have sn: "sint ?n = sint (accumulate_multiplies shape 1)"
    by (simp add: sint_up_scast is_up)
  have nu: "\<not> (sg \<and> 32 \<le> LENGTH('a) \<and> high = numeric_limits_min True)"
    using lt less_T_not_least[of low high] by auto
  have le: "le_T sg low (high - 1)" using lt by (rule less_T_pred)
  show ?thesis using nu le n sn by (auto simp add: rng_uniform_def Let_def)
qed

lemma rng_uniform_range:
  fixes low high :: "'a::len word"
  assumes c: "in_closed_range sg distr"
    and lt: "less_T sg low high"
    and r: "rng_uniform sg distr gen low high shape = Inr r"
    and v: "v \<in> set r"
  shows "le_T sg low v \<and> less_T sg v high"
proof -
  have n: "0 \<le> sint (accumulate_multiplies shape 1)"
  proof (rule ccontr)
    assume "\<not> 0 \<le> sint (accumulate_multiplies shape 1)"
    then have "rng_uniform sg distr gen low high shape = Inl LengthError"
      using lt by (intro rng_uniform_throws) simp_all
    with r show False by simp
  qed
  from rng_uniform_returns[OF lt n, of distr gen] r
  have all: "\<forall>j<length r. \<exists>g'. r ! j = fst (distr low (high - 1) g')" by auto
  from v obtain j where "j < length r" "r ! j = v" by (auto simp: in_set_conv_nth)
  with all obtain g' where g': "v = fst (distr low (high - 1) g')" by auto
  have le: "le_T sg low (high - 1)" using lt by (rule less_T_pred)
  with c have "le_T sg low v \<and> le_T sg v (high - 1)"
    unfolding g' in_closed_range_def by blast
  with lt show ?thesis by (auto intro: pred_less_T)
qed

lemma sint_accumulate_multiplies:
  assumes "0 \<le> prod_list (map sint shape)" "prod_list (map sint shape) < 2 ^ 31"
  shows "sint (accumulate_multiplies shape 1) = prod_list (map sint shape)"
proof -
  have "sint (accumulate_multiplies shape 1)
      = sint (word_of_int (prod_list (map sint shape)) :: 32 word)"
    by (simp add: accumulate_multiplies_eq)
  also have "\<dots> = prod_list (map sint shape)"
    using assms by (intro sint_of_int_self) simp_all
  finally show ?thesis .
qed

lemma rng_uniform_small_shape:
  fixes low high :: "'a::len word"
  assumes "in_closed_range sg distr" "less_T sg low high"
    and "0 \<le> prod_list (map sint shape)" "prod_list (map sint shape) < 2 ^ 31"
  shows "\<exists>r. rng_uniform sg distr gen low high shape = Inr r \<and>
     int (length r) = prod_list (map sint shape) \<and>
     (\<forall>v\<in>set r. le_T sg low v \<and> less_T sg v high)"
proof -
  have n: "sint (accumulate_multiplies shape 1) = prod_list (map sint shape)"
    using assms(3,4) by (rule sint_accumulate_multiplies)
  with assms(3) have "0 \<le> sint (accumulate_multiplies shape 1)" by simp
  from rng_uniform_returns[OF assms(2) this, of distr gen]
  obtain r where r: "rng_uniform sg distr gen low high shape = Inr r"
      "int (length r) = sint (accumulate_multiplies shape 1)" by auto
  with n rng_uniform_range[OF assms(1,2) r(1)] show ?thesis by auto
qed

text \<open>
  C4. The claim asks that \<open>rng_uniform\<close>, for \<open>low < high\<close> and every shape, return
  exactly as many samples as the product of the dimensions, each in \<open>[low, high)\<close>. The
  samples are in range whenever the call returns, and the count is right for a shape
  whose product lies in \<open>[0, 2^31)\<close>. But the product is accumulated in an \<^verbatim>\<open>int\<close>, the
  type of the initial value \<open>1\<close>, although the dimensions and \<open>n\<close> are \<^verbatim>\<open>int64_t\<close>: for the
  shape \<open>[65536, 65536]\<close>, of product \<open>2^32\<close>, the count wraps to zero and the call
  returns no sample at all; for the shape \<open>[2^31]\<close> it wraps to a negative number and
  the allocation of the result throws.
\<close>

theorem rng_uniform_count_truncated:
  "prod_list (map sint [65536, 65536 :: 64 word]) = 4294967296 \<and>
   accumulate_multiplies [65536, 65536] 1 = 0 \<and>
   rng_uniform is_signed distribution gen (0 :: 32 word) 5 [65536, 65536] = Inr [] \<and>
   rng_uniform is_signed distribution gen (0 :: 32 word) 5 [2147483648] = Inl LengthError"
  by (simp add: rng_uniform_def numeric_limits_min_def le_T_def word_sle_eq rng_loop.simps)

lemma rng_bit_generator_returns:
  fixes N :: "64 word"
  assumes "0 \<le> sint N" "sint N < 2 ^ 31"
  shows "\<exists>vals :: 'a::len word list.
     rng_bit_generator sg distr gen Algorithm N state = Inr (state, vals) \<and>
     int (length vals) = sint N"
proof -
  have "sint (accumulate_multiplies [N] 1) = sint N"
    using assms by (simp add: sint_ucast_count)
  with assms(1) rng_uniform_returns[OF limits_less_T, of "[N]" sg distr gen]
  obtain r :: "'a word list" where
    "rng_uniform sg distr gen (numeric_limits_min sg) (numeric_limits_max sg) [N] = Inr r"
    "int (length r) = sint N"
    by auto
  then show ?thesis by (simp add: rng_bit_generator_def)
qed

text \<open>
  What holds of \<open>rng_bit_generator\<close> for every count: it does not depend on the
  algorithm selector, and what it returns is the input state, unchanged, paired with
  the values of \<open>rng_uniform\<close> called on the least and greatest value of the element
  type with the shape \<open>[N]\<close>. For \<open>0 \<le> N < 2^31\<close> it does return, with exactly \<open>N\<close>
  values.
\<close>

lemma rng_bit_generator_frame:
  "rng_bit_generator sg distr gen Algorithm N state
     = rng_bit_generator sg distr gen Algorithm' N state \<and>
   rng_bit_generator sg distr gen Algorithm N state
     = (case rng_uniform sg distr gen (numeric_limits_min sg) (numeric_limits_max sg) [N] of
          Inl e \<Rightarrow> Inl e
        | Inr vals \<Rightarrow> Inr (state, vals)) \<and>
   (\<forall>st vals. rng_bit_generator sg distr gen Algorithm N state = Inr (st, vals) \<longrightarrow> st = state) \<and>
   (0 \<le> sint N \<and> sint N < 2 ^ 31 \<longrightarrow>
      (\<exists>vals. rng_bit_generator sg distr gen Algorithm N state = Inr (state, vals) \<and>
             int (length vals) = sint N))"
  using rng_bit_generator_returns[of N sg distr gen Algorithm state]
  by (auto simp add: rng_bit_generator_def split: sum.splits)

lemma rng_bit_generator_three_values:
  "rng_bit_generator True lowest_draw 0 1 3 [7, 9] = Inr ([7, 9], [- 128, - 128, - 128 :: 8 word]) \<and>
   rng_bit_generator True lowest_draw 0 2 3 [7, 9] = Inr ([7, 9], [- 128, - 128, - 128 :: 8 word])"
  by (simp add: rng_bit_generator_def rng_uniform_def numeric_limits_min_def
      numeric_limits_max_def le_T_def word_sle_eq numeral_3_eq_3 rng_loop.simps lowest_draw_def)

text \<open>
  C5. The claim asks that \<open>rng_bit_generator\<close>, for every state, algorithm identifier
  and output count \<open>N\<close>, return the state unchanged, not depend on the algorithm
  selector, and produce \<open>N\<close> values drawn by \<open>rng_uniform\<close> over the range of the element
  type. The state and the selector are as claimed, but the count is the count of
  \<open>rng_uniform\<close> for the shape \<open>[N]\<close>, accumulated in an \<^verbatim>\<open>int\<close>: for \<open>N = 2^32\<close> the call
  returns the state with no value at all.
\<close>

theorem rng_bit_generator_count_truncated:
  "rng_bit_generator True lowest_draw 0 1 4294967296 [7, 9] = Inr ([7, 9], ([] :: 32 word list)) \<and>
   int (length ([] :: 32 word list)) \<noteq> sint (4294967296 :: 64 word)"
  by (simp add: rng_bit_generator_def rng_uniform_def numeric_limits_min_def
      numeric_limits_max_def le_T_def word_sle_eq rng_loop.simps lowest_draw_def)

text \<open>
  C10. With a distribution that honours its contract, every value that
  \<open>rng_bit_generator\<close> produces is at least the least value of the element type and
  strictly below its greatest value, which therefore never occurs; and the call does
  produce \<open>N\<close> values for \<open>0 \<le> N < 2^31\<close>.
\<close>

theorem rng_bit_generator_below_max:
  "in_closed_range sg distr \<Longrightarrow>
   (\<forall>st vals. rng_bit_generator sg distr gen Algorithm N state = Inr (st, vals) \<longrightarrow>
      (\<forall>v\<in>set vals. le_T sg (numeric_limits_min sg) v \<and> less_T sg v (numeric_limits_max sg) \<and>
                    v \<noteq> numeric_limits_max sg)) \<and>
   (0 \<le> sint N \<and> sint N < 2 ^ 31 \<longrightarrow>
      (\<exists>vals. rng_bit_generator sg distr gen Algorithm N state = Inr (state, vals) \<and>
             int (length vals) = sint N))"
proof (intro conjI allI impI ballI)
  fix st vals v
  assume c: "in_closed_range sg distr"
    and r: "rng_bit_generator sg distr gen Algorithm N state = Inr (st, vals)"
    and v: "v \<in> set vals"
  from r have "rng_uniform sg distr gen (numeric_limits_min sg) (numeric_limits_max sg) [N] = Inr vals"
    by (simp add: rng_bit_generator_def split: sum.splits)
  from rng_uniform_range[OF c limits_less_T this v]
  show "le_T sg (numeric_limits_min sg) v" "less_T sg v (numeric_limits_max sg)"
    by simp_all
  then show "v \<noteq> numeric_limits_max sg"
    by (cases sg) (auto simp add: less_T_def word_sless_alt)
next
  assume "0 \<le> sint N \<and> sint N < 2 ^ 31"
  then show "\<exists>vals. rng_bit_generator sg distr gen Algorithm N state = Inr (state, vals) \<and>
             int (length vals) = sint N"
    using rng_bit_generator_returns[of N sg distr gen Algorithm state] by simp
qed

theorem rng_bit_generator_below_max_witness:
  "rng_bit_generator False lowest_draw 0 0 2 [] = Inr ([], [0, 0 :: 16 word]) \<and>
   le_T False (numeric_limits_min False) (0 :: 16 word) \<and>
   less_T False (0 :: 16 word) (numeric_limits_max False) \<and>
   (0 :: 16 word) \<noteq> numeric_limits_max False \<and>
   0 \<le> sint (2 :: 64 word) \<and> sint (2 :: 64 word) < 2 ^ 31"
proof -
  have c: "in_closed_range False (lowest_draw :: 16 word \<Rightarrow> 16 word \<Rightarrow> nat \<Rightarrow> 16 word \<times> nat)"
    by (simp add: in_closed_range_def lowest_draw_def le_T_def)
  have v: "rng_bit_generator False lowest_draw 0 0 2 [] = Inr ([], [0, 0 :: 16 word])"
    by (simp add: rng_bit_generator_def rng_uniform_def numeric_limits_min_def
        numeric_limits_max_def le_T_def numeral_2_eq_2 rng_loop.simps lowest_draw_def)
  from rng_bit_generator_below_max [OF c, of 0 0 2 "[]"] v
  show ?thesis by simp
qed

end
